theory Spec2Isabelle
  imports Main "HOL-Library.Word"
begin

section \<open>The chain-state tracker of \<^verbatim>\<open>protocol/protocol.go\<close>\<close>

text \<open>
  Go's \<^verbatim>\<open>uint64\<close> is a 64-bit word: \<open>+\<close> wraps around, \<open><\<close> and \<open>\<le>\<close> compare the
  unsigned values. A pointer that may be \<^verbatim>\<open>nil\<close> is an \<open>option\<close>. The snapshot type
  \<^verbatim>\<open>state.Snapshot\<close> and the hash type \<^verbatim>\<open>bc.Hash\<close> are declared outside the
  file; they are the type parameters \<open>'s\<close> and \<open>'h\<close>.
\<close>

type_synonym uint64 = "64 word"

text \<open>
  The error values that reach the file: its own \<^verbatim>\<open>ErrTheDistantFuture\<close>, the two
  errors a context of the standard library reports, and the errors of a store.
\<close>

datatype error =
  ErrTheDistantFuture
| Canceled
| DeadlineExceeded
| ErrNotFound
| ErrStore string

datatype ctx_Err = ctx_Canceled | ctx_DeadlineExceeded

fun ctx_error :: "ctx_Err \<Rightarrow> error" where
  "ctx_error ctx_Canceled = Canceled"
| "ctx_error ctx_DeadlineExceeded = DeadlineExceeded"

text \<open>Of \<^verbatim>\<open>legacy.Block\<close> the file reads the two header fields below.\<close>

record legacy_Block =
  Height :: uint64
  TimestampMS :: uint64

text \<open>
  The \<^verbatim>\<open>Store\<close> interface. A method returning \<^verbatim>\<open>(*T, error)\<close> returns both
  components, as in Go: nothing forces the pointer to be \<^verbatim>\<open>nil\<close> when the error is not.
\<close>

record 's Store =
  Store_Height :: uint64
  GetBlock :: "uint64 \<Rightarrow> legacy_Block option \<times> error option"
  LatestSnapshot :: "'s option \<times> uint64 \<times> error option"
  SaveBlock :: "legacy_Block option \<Rightarrow> error option"
  FinalizeBlock :: "uint64 \<Rightarrow> error option"
  SaveSnapshot :: "uint64 \<Rightarrow> 's option \<Rightarrow> error option"

record 's pendingSnapshot =
  ps_height :: uint64
  ps_snapshot :: "'s option"

text \<open>
  The \<^verbatim>\<open>Chain\<close> struct, with the fields of the nested \<^verbatim>\<open>state\<close> struct written
  flat. The condition variable \<open>cond\<close> is the set of goroutines (by number) parked in
  \<^verbatim>\<open>cond.Wait\<close>; its mutex makes every method body below one atomic step, which is
  why each is a function from state to state. \<open>pendingSnapshots\<close> is the buffered
  channel, \<open>assets_amount\<close> the map of the \<^verbatim>\<open>assets_utxo\<close> struct.
\<close>

record ('h, 's) Chain =
  InitialBlockHash :: 'h
  height :: uint64
  block :: "legacy_Block option"
  snapshot :: "'s option"
  cond :: "nat set"
  pendingSnapshots :: "'s pendingSnapshot list"
  assets_amount :: "(string \<times> uint64) list"

definition Broadcast :: "('h, 's) Chain \<Rightarrow> ('h, 's) Chain" where
  "Broadcast c = c\<lparr>cond := {}\<rparr>"

subsection \<open>NewChain\<close>

text \<open>
  The part of \<^verbatim>\<open>NewChain\<close> that runs before it returns. \<open>state_Empty\<close> is the value
  of \<^verbatim>\<open>state.Empty()\<close>. Both errors of the \<^verbatim>\<open>else\<close> branch are assigned to
  \<^verbatim>\<open>_\<close>, and the function ends in \<^verbatim>\<open>return c, nil\<close>.
\<close>

definition NewChain ::
  "'h \<Rightarrow> 's Store \<Rightarrow> 's \<Rightarrow> ('h, 's) Chain option \<times> error option" where
  "NewChain initialBlockHash store state_Empty =
     (let c0 = \<lparr>InitialBlockHash = initialBlockHash, height = 0, block = None,
                snapshot = None, cond = {}, pendingSnapshots = [], assets_amount = []\<rparr>;
          c1 = c0\<lparr>height := Store_Height store\<rparr>;
          c2 = (if height c1 < 1 then c1\<lparr>snapshot := Some state_Empty\<rparr>
                else c1\<lparr>block := fst (GetBlock store (height c1)),
                        snapshot := fst (LatestSnapshot store)\<rparr>)
      in (Some c2, None))"

subsection \<open>Accessors\<close>

text \<open>Each accessor returns its result and the chain it leaves behind.\<close>

definition Chain_Height :: "('h, 's) Chain \<Rightarrow> uint64 \<times> ('h, 's) Chain" where
  "Chain_Height c = (height c, c)"

definition Chain_TimestampMS :: "('h, 's) Chain \<Rightarrow> uint64 \<times> ('h, 's) Chain" where
  "Chain_TimestampMS c =
     (case block c of None \<Rightarrow> (0, c) | Some b \<Rightarrow> (TimestampMS b, c))"

definition State ::
  "('h, 's) Chain \<Rightarrow> (legacy_Block option \<times> 's option) \<times> ('h, 's) Chain" where
  "State c = ((block c, snapshot c), c)"

subsection \<open>setState\<close>

definition setState ::
  "legacy_Block option \<Rightarrow> 's option \<Rightarrow> ('h, 's) Chain \<Rightarrow> ('h, 's) Chain" where
  "setState b s c =
     (let c1 = c\<lparr>block := b, snapshot := s\<rparr>
      in case b of
           None \<Rightarrow> c1
         | Some blk \<Rightarrow>
             if Height blk > height c1 then Broadcast (c1\<lparr>height := Height blk\<rparr>)
             else c1)"

text \<open>A sequence of state updates, applied in order.\<close>

fun setStates ::
  "(legacy_Block option \<times> 's option) list \<Rightarrow> ('h, 's) Chain \<Rightarrow> ('h, 's) Chain" where
  "setStates [] c = c"
| "setStates ((b, s) # us) c = setStates us (setState b s c)"

subsection \<open>BlockWaiter\<close>

text \<open>
  \<^verbatim>\<open>BlockWaiter\<close> starts a goroutine and returns its channel. The goroutine is a
  small process: \<open>Entry\<close> before it has taken the lock, \<open>InWait\<close> inside
  \<^verbatim>\<open>cond.Wait\<close>, \<open>Finished\<close> after the send. \<open>ch\<close> counts the values sent on the
  channel so far. \<open>waiter_run\<close> is one scheduling of the goroutine: it runs under the
  lock until it parks in \<^verbatim>\<open>cond.Wait\<close> or has sent; a parked goroutine only moves
  once a \<open>Broadcast\<close> has taken it out of \<open>cond\<close>.
\<close>

datatype waiter_pc = Entry | InWait | Finished

record waiter =
  wid :: nat
  target :: uint64
  wpc :: waiter_pc
  ch :: nat

definition BlockWaiter :: "nat \<Rightarrow> uint64 \<Rightarrow> waiter" where
  "BlockWaiter g h = \<lparr>wid = g, target = h, wpc = Entry, ch = 0\<rparr>"

definition waiter_loop :: "waiter \<Rightarrow> ('h, 's) Chain \<Rightarrow> waiter \<times> ('h, 's) Chain" where
  "waiter_loop w c =
     (if height c < target w
      then (w\<lparr>wpc := InWait\<rparr>, c\<lparr>cond := insert (wid w) (cond c)\<rparr>)
      else (w\<lparr>wpc := Finished, ch := ch w + 1\<rparr>, c))"

definition waiter_run :: "waiter \<Rightarrow> ('h, 's) Chain \<Rightarrow> waiter \<times> ('h, 's) Chain" where
  "waiter_run w c =
     (case wpc w of
        Entry \<Rightarrow> waiter_loop w c
      | InWait \<Rightarrow> if wid w \<in> cond c then (w, c) else waiter_loop w c
      | Finished \<Rightarrow> (w, c))"

text \<open>
  A schedule interleaves state updates with schedulings of the waiting goroutine.
\<close>

datatype 's sched = Publish "legacy_Block option" "'s option" | RunWaiter

fun run_sched ::
  "'s sched list \<Rightarrow> waiter \<times> ('h, 's) Chain \<Rightarrow> waiter \<times> ('h, 's) Chain" where
  "run_sched [] wc = wc"
| "run_sched (Publish b s # es) (w, c) = run_sched es (w, setState b s c)"
| "run_sched (RunWaiter # es) (w, c) = run_sched es (waiter_run w c)"

text \<open>
  What holds of the goroutine at every point of every schedule: nothing is sent before
  it has finished, it has sent once when it has, it only finishes at or above its target,
  and while it is parked in \<open>cond\<close> the height is below its target.
\<close>

definition waiter_inv :: "waiter \<Rightarrow> ('h, 's) Chain \<Rightarrow> bool" where
  "waiter_inv w c =
     (case wpc w of
        Entry \<Rightarrow> ch w = 0
      | InWait \<Rightarrow> ch w = 0 \<and> (wid w \<in> cond c \<longrightarrow> height c < target w)
      | Finished \<Rightarrow> ch w = 1 \<and> target w \<le> height c)"

subsection \<open>BlockSoonWaiter\<close>

text \<open>
  The goroutine of \<^verbatim>\<open>BlockSoonWaiter\<close>, run on the chain \<open>c\<close> it finds when it calls
  \<^verbatim>\<open>c.Height()\<close>. The result is what it sends on its channel (\<open>None\<close>: nothing yet,
  \<open>Some None\<close>: \<^verbatim>\<open>nil\<close>, \<open>Some (Some e)\<close>: the error \<open>e\<close>) and the \<open>BlockWaiter\<close>
  it started, if any. Which case of the \<^verbatim>\<open>select\<close> fires is decided by the other
  goroutines; it is the argument \<open>r\<close>.
\<close>

definition slop :: uint64 where
  "slop = 3"

datatype race = WaiterFirst | CtxDone ctx_Err | StillWaiting

definition BlockSoonWaiter ::
  "nat \<Rightarrow> race \<Rightarrow> uint64 \<Rightarrow> ('h, 's) Chain \<Rightarrow> error option option \<times> waiter option" where
  "BlockSoonWaiter g r h c =
     (if h > fst (Chain_Height c) + slop then (Some (Some ErrTheDistantFuture), None)
      else (case r of
              WaiterFirst \<Rightarrow> Some None
            | CtxDone e \<Rightarrow> Some (Some (ctx_error e))
            | StillWaiting \<Rightarrow> None,
            Some (BlockWaiter g h)))"

subsection \<open>The snapshot goroutine of NewChain\<close>

text \<open>
  The second goroutine of \<^verbatim>\<open>NewChain\<close> loops over a \<^verbatim>\<open>select\<close> on \<^verbatim>\<open>ctx.Done()\<close>
  and the channel \<open>pendingSnapshots\<close> (capacity 1). The system around it: the chain, the
  context, whether the goroutine still runs, the calls of \<^verbatim>\<open>SaveSnapshot\<close> made so far
  and the errors handed to \<^verbatim>\<open>log.Error\<close>. An event is a step of the environment
  (\<open>Cancel\<close>, a send \<open>Enqueue\<close> on the channel, an \<open>Update\<close> by \<open>setState\<close>) or a
  case of the \<^verbatim>\<open>select\<close> firing; a step that is not enabled changes nothing.
\<close>

record ('h, 's) worker_sys =
  w_chain :: "('h, 's) Chain"
  ctx_done :: bool
  worker_alive :: bool
  saves :: "'s pendingSnapshot list"
  logged :: "error list"

datatype 's wevent =
  Cancel
| Enqueue "'s pendingSnapshot"
| Update "legacy_Block option" "'s option"
| SelectDone
| SelectPending

fun worker_step ::
  "'s Store \<Rightarrow> 's wevent \<Rightarrow> ('h, 's) worker_sys \<Rightarrow> ('h, 's) worker_sys" where
  "worker_step store Cancel sys = sys\<lparr>ctx_done := True\<rparr>"
| "worker_step store (Enqueue ps) sys =
     (if length (pendingSnapshots (w_chain sys)) < 1
      then sys\<lparr>w_chain := (w_chain sys)\<lparr>pendingSnapshots :=
                   pendingSnapshots (w_chain sys) @ [ps]\<rparr>\<rparr>
      else sys)"
| "worker_step store (Update b s) sys = sys\<lparr>w_chain := setState b s (w_chain sys)\<rparr>"
| "worker_step store SelectDone sys =
     (if worker_alive sys \<and> ctx_done sys then sys\<lparr>worker_alive := False\<rparr> else sys)"
| "worker_step store SelectPending sys =
     (if worker_alive sys then
        (case pendingSnapshots (w_chain sys) of
           [] \<Rightarrow> sys
         | ps # rest \<Rightarrow>
             (let err = SaveSnapshot store (ps_height ps) (ps_snapshot ps)
              in sys\<lparr>w_chain := (w_chain sys)\<lparr>pendingSnapshots := rest\<rparr>,
                     saves := saves sys @ [ps],
                     logged := (case err of None \<Rightarrow> logged sys
                                | Some e \<Rightarrow> logged sys @ [e])\<rparr>))
      else sys)"

fun worker_run ::
  "'s Store \<Rightarrow> 's wevent list \<Rightarrow> ('h, 's) worker_sys \<Rightarrow> ('h, 's) worker_sys" where
  "worker_run store [] sys = sys"
| "worker_run store (e # es) sys = worker_run store es (worker_step store e sys)"

subsection \<open>The invariant of the specification\<close>

text \<open>
  The data model of the specification asks that the block is null exactly while the
  chain is uninitialised at height 0, and that otherwise the block's height is the
  chain's height.
\<close>

definition spec_invariant :: "('h, 's) Chain \<Rightarrow> bool" where
  "spec_invariant c =
     (case block c of None \<Rightarrow> height c = 0 | Some b \<Rightarrow> Height b = height c)"

subsection \<open>Example values\<close>

definition block_at :: "uint64 \<Rightarrow> legacy_Block" where
  "block_at h = \<lparr>Height = h, TimestampMS = 1000 * h\<rparr>"

definition chain_at :: "uint64 \<Rightarrow> legacy_Block option \<Rightarrow> (unit, nat) Chain" where
  "chain_at h b =
     \<lparr>InitialBlockHash = (), height = h, block = b, snapshot = Some 0, cond = {},
      pendingSnapshots = [], assets_amount = []\<rparr>"

text \<open>
  An empty store, a store holding block 1 and snapshot 7, and a store that reports
  height 1 but has lost the block; the last one also fails every snapshot write.
\<close>

definition empty_store :: "nat Store" where
  "empty_store =
     \<lparr>Store_Height = 0, GetBlock = (\<lambda>h. (None, Some ErrNotFound)),
      LatestSnapshot = (None, 0, Some ErrNotFound), SaveBlock = (\<lambda>b. None),
      FinalizeBlock = (\<lambda>h. None), SaveSnapshot = (\<lambda>h s. None)\<rparr>"

definition good_store :: "nat Store" where
  "good_store =
     \<lparr>Store_Height = 1,
      GetBlock = (\<lambda>h. if h = 1 then (Some (block_at 1), None) else (None, Some ErrNotFound)),
      LatestSnapshot = (Some 7, 1, None), SaveBlock = (\<lambda>b. None),
      FinalizeBlock = (\<lambda>h. None), SaveSnapshot = (\<lambda>h s. None)\<rparr>"

definition lossy_store :: "nat Store" where
  "lossy_store =
     \<lparr>Store_Height = 1, GetBlock = (\<lambda>h. (None, Some ErrNotFound)),
      LatestSnapshot = (Some 7, 1, None), SaveBlock = (\<lambda>b. None),
      FinalizeBlock = (\<lambda>h. None),
      SaveSnapshot = (\<lambda>h s. Some (ErrStore ''disk full''))\<rparr>"

text \<open>
  A running snapshot goroutine with one request, for height 1, in the channel.
\<close>

definition worker_sys0 :: "(unit, nat) worker_sys" where
  "worker_sys0 =
     \<lparr>w_chain = (chain_at 1 (Some (block_at 1)))
                  \<lparr>pendingSnapshots := [\<lparr>ps_height = 1, ps_snapshot = Some 7\<rparr>]\<rparr>,
      ctx_done = False, worker_alive = True, saves = [], logged = []\<rparr>"

section \<open>Properties of setState\<close>

lemma height_setState:
  "height (setState b s c) =
     (case b of None \<Rightarrow> height c
      | Some blk \<Rightarrow> if Height blk > height c then Height blk else height c)"
  by (simp add: setState_def Broadcast_def Let_def split: option.splits)

lemma height_setState_le: "height c \<le> height (setState b s c)"
  by (auto simp add: height_setState split: option.splits intro: less_imp_le)

lemma height_setStates_le: "height c \<le> height (setStates us c)"
proof (induction us arbitrary: c)
  case Nil
  show ?case by simp
next
  case (Cons u us)
  obtain b s where u: "u = (b, s)" by (cases u)
  have "height c \<le> height (setState b s c)" by (rule height_setState_le)
  also have "\<dots> \<le> height (setStates us (setState b s c))" by (rule Cons.IH)
  finally show ?case by (simp add: u)
qed

lemma setStates_append: "setStates (us @ vs) c = setStates vs (setStates us c)"
  by (induction us arbitrary: c) auto

text \<open>
  Claim C1. A call of \<open>setState b s\<close> never lowers the height. The height rises only
  when \<open>b\<close> is a block whose \<open>Height\<close> is above the current height, a call with the
  nil block leaves the height as it is, and so along any sequence of updates the height
  read by \<open>Chain_Height\<close> at a later point is never below the one read earlier.
\<close>

theorem setState_height_monotone:
  fixes c :: "('h, 's) Chain"
  shows "height c \<le> height (setState b s c)
       \<and> (height c < height (setState b s c) \<longrightarrow>
            (\<exists>blk. b = Some blk \<and> height c < Height blk))
       \<and> height (setState None s c) = height c
       \<and> fst (Chain_Height (setStates us c))
            \<le> fst (Chain_Height (setStates (us @ vs) c))"
proof (intro conjI)
  show "height c \<le> height (setState b s c)"
    by (rule height_setState_le)
  show "height c < height (setState b s c) \<longrightarrow>
          (\<exists>blk. b = Some blk \<and> height c < Height blk)"
    by (cases b) (auto simp add: height_setState split: if_splits)
  show "height (setState None s c) = height c"
    by (simp add: height_setState)
  show "fst (Chain_Height (setStates us c)) \<le> fst (Chain_Height (setStates (us @ vs) c))"
    by (simp add: Chain_Height_def setStates_append height_setStates_le)
qed

theorem setState_height_monotone_witness:
  "height (chain_at 5 None) < height (setState (Some (block_at 7)) (Some 1) (chain_at 5 None))
   \<and> (\<exists>blk. Some (block_at 7) = Some blk \<and> height (chain_at 5 None) < Height blk)
   \<and> height (setState (Some (block_at 3)) (Some 1) (chain_at 5 None)) = 5"
  using setState_height_monotone [of "chain_at 5 None" "Some (block_at 7)" "Some 1" "[]" "[]"]
  by (simp add: chain_at_def block_at_def height_setState)

text \<open>
  Claim C10. When \<open>b\<close> is a block whose \<open>Height\<close> is not above the current height,
  \<open>setState b s\<close> still replaces the block and the snapshot by \<open>b\<close> and \<open>s\<close>; the
  height stays, no goroutine is taken out of \<open>cond\<close>, and nothing else changes.
\<close>

theorem setState_not_advancing:
  fixes c :: "('h, 's) Chain"
  assumes "b = Some blk" and "Height blk \<le> height c"
  shows "block (setState b s c) = b \<and> snapshot (setState b s c) = s
       \<and> height (setState b s c) = height c \<and> cond (setState b s c) = cond c
       \<and> setState b s c = c\<lparr>block := b, snapshot := s\<rparr>"
  using assms by (simp add: setState_def Let_def not_less [symmetric])

theorem setState_not_advancing_witness:
  "Height (block_at 3) \<le> height (chain_at 5 (Some (block_at 5)))
   \<and> block (setState (Some (block_at 3)) (Some 9) (chain_at 5 (Some (block_at 5)))) = Some (block_at 3)
   \<and> snapshot (setState (Some (block_at 3)) (Some 9) (chain_at 5 (Some (block_at 5)))) = Some 9
   \<and> height (setState (Some (block_at 3)) (Some 9) (chain_at 5 (Some (block_at 5)))) = 5"
proof -
  have h: "Height (block_at 3) \<le> height (chain_at 5 (Some (block_at 5)))"
    by (simp add: block_at_def chain_at_def)
  show ?thesis
    using h setState_not_advancing [OF refl h, of "Some 9"]
    by (simp add: chain_at_def)
qed

section \<open>Properties of the accessors and of NewChain\<close>

text \<open>
  Claim C8. \<open>Chain_TimestampMS\<close> returns 0 when the block field is nil and the
  \<open>TimestampMS\<close> of the block otherwise, and it leaves the chain as it found it.
\<close>

theorem TimestampMS_reads_block:
  fixes c :: "('h, 's) Chain"
  shows "(block c = None \<longrightarrow> fst (Chain_TimestampMS c) = 0)
       \<and> (\<forall>b. block c = Some b \<longrightarrow> fst (Chain_TimestampMS c) = TimestampMS b)
       \<and> snd (Chain_TimestampMS c) = c"
  by (simp add: Chain_TimestampMS_def split: option.splits)

theorem TimestampMS_reads_block_witness:
  "block (chain_at 0 None) = None \<and> fst (Chain_TimestampMS (chain_at 0 None)) = 0
   \<and> block (chain_at 2 (Some (block_at 2))) = Some (block_at 2)
   \<and> fst (Chain_TimestampMS (chain_at 2 (Some (block_at 2)))) = 2000"
  using TimestampMS_reads_block [of "chain_at 0 None"]
        TimestampMS_reads_block [of "chain_at 2 (Some (block_at 2))"]
  by (simp add: chain_at_def block_at_def)

text \<open>
  Claim C7. \<open>NewChain\<close> sets the height to the store's height. Below height 1 the
  snapshot is the empty snapshot and the block stays nil; otherwise the block is what
  \<open>GetBlock\<close> returns for that height and the snapshot is what \<open>LatestSnapshot\<close>
  returns.
\<close>

theorem NewChain_seeds_state:
  fixes store :: "'s Store"
  shows "\<exists>c. fst (NewChain ibh store state_Empty) = Some c
       \<and> height c = Store_Height store
       \<and> (Store_Height store < 1 \<longrightarrow> snapshot c = Some state_Empty \<and> block c = None)
       \<and> (\<not> Store_Height store < 1 \<longrightarrow>
            block c = fst (GetBlock store (Store_Height store))
            \<and> snapshot c = fst (LatestSnapshot store))"
  by (simp add: NewChain_def Let_def)

theorem NewChain_seeds_state_witness:
  "Store_Height empty_store < 1 \<and> \<not> Store_Height good_store < 1
   \<and> (\<exists>c. fst (NewChain () empty_store 0) = Some c \<and> height c = 0
          \<and> snapshot c = Some 0 \<and> block c = None)
   \<and> (\<exists>c. fst (NewChain () good_store 0) = Some c \<and> height c = 1
          \<and> block c = Some (block_at 1) \<and> snapshot c = Some 7)"
  using NewChain_seeds_state [of "()" empty_store 0] NewChain_seeds_state [of "()" good_store 0]
  by (simp add: empty_store_def good_store_def)

text \<open>
  Claim C3 says that \<open>NewChain\<close> fails when \<open>GetBlock\<close> reports \<open>ErrNotFound\<close> for a
  stored height of at least 1. On the store that has lost block 1 it returns a chain
  and no error.
\<close>

theorem NewChain_NotFound_counterexample:
  "1 \<le> Store_Height lossy_store
   \<and> snd (GetBlock lossy_store (Store_Height lossy_store)) = Some ErrNotFound
   \<and> NewChain () lossy_store 0 = (Some ((chain_at 1 None)\<lparr>snapshot := Some 7\<rparr>), None)"
  by (simp add: NewChain_def Let_def lossy_store_def chain_at_def)

text \<open>
  Claim C3, amended. When the stored height is at least 1 and \<open>GetBlock\<close> reports
  \<open>ErrNotFound\<close> for it, \<open>NewChain\<close> drops the error: it returns a chain and the nil
  error, the chain has the stored height, and its block is the pointer that \<open>GetBlock\<close>
  returned beside the error.
\<close>

theorem NewChain_discards_errors:
  fixes store :: "'s Store"
  assumes "1 \<le> Store_Height store"
    and "snd (GetBlock store (Store_Height store)) = Some ErrNotFound"
  shows "\<exists>c. NewChain ibh store state_Empty = (Some c, None)
       \<and> height c = Store_Height store
       \<and> block c = fst (GetBlock store (Store_Height store))"
  using assms by (simp add: NewChain_def Let_def not_less [symmetric])

theorem NewChain_discards_errors_witness:
  "1 \<le> Store_Height lossy_store
   \<and> snd (GetBlock lossy_store (Store_Height lossy_store)) = Some ErrNotFound
   \<and> (\<exists>c. NewChain () lossy_store 0 = (Some c, None) \<and> height c = 1 \<and> block c = None)"
proof -
  have h1: "1 \<le> Store_Height lossy_store" by (simp add: lossy_store_def)
  have h2: "snd (GetBlock lossy_store (Store_Height lossy_store)) = Some ErrNotFound"
    by (simp add: lossy_store_def)
  show ?thesis
    using h1 h2 NewChain_discards_errors [OF h1 h2, of "()" 0]
    by (simp add: lossy_store_def)
qed

section \<open>The invariant of the chain state\<close>

text \<open>
  Claim C2 says that after initialisation and after every update the block is nil
  exactly at the uninitialised height 0 and otherwise has the chain's height. The
  invariant holds after \<open>NewChain\<close> on the empty store and after a first update with
  block 2, and is lost by a following update with block 1: the block is replaced, the
  height stays 2.
\<close>

theorem spec_invariant_counterexample:
  "spec_invariant (the (fst (NewChain () empty_store 0)))
   \<and> spec_invariant (setState (Some (block_at 2)) (Some 1) (the (fst (NewChain () empty_store 0))))
   \<and> \<not> spec_invariant (setState (Some (block_at 1)) (Some 2)
          (setState (Some (block_at 2)) (Some 1) (the (fst (NewChain () empty_store 0)))))"
  by (simp add: spec_invariant_def setState_def Broadcast_def NewChain_def Let_def
      empty_store_def block_at_def)

lemma word_below_one: "(x :: uint64) < 1 \<longleftrightarrow> x = 0"
  by (simp add: word_less_1)

text \<open>
  Claim C2, amended. After \<open>NewChain\<close> with a stored height below 1 the block is nil
  and the height is 0. After every \<open>setState b s\<close> the block is \<open>b\<close>; when \<open>b\<close> is a
  block, its \<open>Height\<close> is at most the chain's height, and equal to it when it is at least
  the height before the call.
\<close>

theorem block_height_after_update:
  fixes c :: "('h, 's) Chain" and store :: "'s Store"
  shows "(Store_Height store < 1 \<longrightarrow>
            (\<exists>c0. fst (NewChain ibh store state_Empty) = Some c0
                 \<and> block c0 = None \<and> height c0 = 0))
       \<and> block (setState b s c) = b
       \<and> (\<forall>blk. b = Some blk \<longrightarrow>
            Height blk \<le> height (setState b s c)
            \<and> (height c \<le> Height blk \<longrightarrow> Height blk = height (setState b s c)))"
proof (intro conjI)
  show "Store_Height store < 1 \<longrightarrow>
          (\<exists>c0. fst (NewChain ibh store state_Empty) = Some c0
               \<and> block c0 = None \<and> height c0 = 0)"
    by (simp add: NewChain_def Let_def word_below_one)
  show "block (setState b s c) = b"
    by (simp add: setState_def Broadcast_def Let_def split: option.splits)
  show "\<forall>blk. b = Some blk \<longrightarrow>
          Height blk \<le> height (setState b s c)
          \<and> (height c \<le> Height blk \<longrightarrow> Height blk = height (setState b s c))"
    by (auto simp add: height_setState)
qed

theorem block_height_after_update_witness:
  "Store_Height empty_store < 1
   \<and> (\<exists>c0. fst (NewChain () empty_store 0) = Some c0 \<and> block c0 = None \<and> height c0 = 0)
   \<and> height (chain_at 2 None) \<le> Height (block_at 4)
   \<and> Height (block_at 4) = height (setState (Some (block_at 4)) (Some 1) (chain_at 2 None))
   \<and> Height (block_at 1) \<le> height (setState (Some (block_at 1)) (Some 1) (chain_at 2 None))"
  using block_height_after_update [of empty_store "()" 0 "Some (block_at 4)" "Some 1" "chain_at 2 None"]
        block_height_after_update [of empty_store "()" 0 "Some (block_at 1)" "Some 1" "chain_at 2 None"]
  by (simp add: empty_store_def chain_at_def block_at_def)

section \<open>What a reader sees after updates\<close>

lemma State_setStates:
  "us \<noteq> [] \<Longrightarrow> fst (State (setStates us c)) = last us"
proof (induction us arbitrary: c)
  case Nil
  then show ?case by simp
next
  case (Cons u us)
  obtain b s where u: "u = (b, s)" by (cases u)
  show ?case
  proof (cases "us = []")
    case True
    then show ?thesis
      by (simp add: u State_def setState_def Broadcast_def Let_def split: option.splits)
  next
    case False
    then show ?thesis using Cons.IH [of "setState b s c"] by (simp add: u)
  qed
qed

lemma block_le_height_setState:
  "block (setState b s c) = Some blk \<Longrightarrow> Height blk \<le> height (setState b s c)"
  by (auto simp add: setState_def Broadcast_def Let_def split: option.splits if_splits)

lemma block_le_height_setStates:
  "us \<noteq> [] \<Longrightarrow> block (setStates us c) = Some blk \<Longrightarrow> Height blk \<le> height (setStates us c)"
proof (induction us arbitrary: c)
  case Nil
  then show ?case by simp
next
  case (Cons u us)
  obtain b s where u: "u = (b, s)" by (cases u)
  show ?case
  proof (cases "us = []")
    case True
    with Cons.prems show ?thesis by (simp add: u block_le_height_setState)
  next
    case False
    with Cons.prems show ?thesis using Cons.IH [of "setState b s c"] by (simp add: u)
  qed
qed

text \<open>
  Claim C5 says that a read after \<open>setState b s\<close> never pairs the returned block with
  a height inconsistent with it. After an update with block 2 and a later one with
  block 1, \<open>State\<close> returns block 1 with the snapshot of the same call, while
  \<open>Chain_Height\<close> reads 2.
\<close>

theorem State_height_gap_counterexample:
  "fst (State (setStates [(Some (block_at 1), Some 8)]
          (setState (Some (block_at 2)) (Some 9) (chain_at 0 None))))
     = (Some (block_at 1), Some 8)
   \<and> fst (Chain_Height (setStates [(Some (block_at 1), Some 8)]
          (setState (Some (block_at 2)) (Some 9) (chain_at 0 None)))) = 2
   \<and> Height (block_at 1) \<noteq> fst (Chain_Height (setStates [(Some (block_at 1), Some 8)]
          (setState (Some (block_at 2)) (Some 9) (chain_at 0 None))))"
  by (simp add: State_def Chain_Height_def setState_def Broadcast_def Let_def
      chain_at_def block_at_def)

text \<open>
  Claim C5, amended. After \<open>setState b s\<close> and any further updates \<open>us\<close>, \<open>State\<close>
  returns the pair of the last update made: \<open>(b, s)\<close> when there was none after it,
  otherwise the pair of a later update, block and snapshot from the same call. \<open>State\<close>
  leaves the chain as it is, and the height read at that point is never below the
  \<open>Height\<close> of the block returned; it may be above it. Each update is one step of the
  model, as block, snapshot and height are assigned under one lock.
\<close>

theorem State_sees_last_update:
  fixes c :: "('h, 's) Chain"
  shows "fst (State (setStates us (setState b s c))) = last ((b, s) # us)
       \<and> snd (State (setStates us (setState b s c))) = setStates us (setState b s c)
       \<and> (\<forall>blk. fst (fst (State (setStates us (setState b s c)))) = Some blk \<longrightarrow>
            Height blk \<le> fst (Chain_Height (setStates us (setState b s c))))"
proof -
  define d where "d = setStates us (setState b s c)"
  have eq: "d = setStates ((b, s) # us) c" by (simp add: d_def)
  have pair: "fst (State d) = last ((b, s) # us)"
    unfolding eq by (rule State_setStates) simp
  have below: "\<forall>blk. block d = Some blk \<longrightarrow> Height blk \<le> height d"
    unfolding eq using block_le_height_setStates [of "(b, s) # us" c] by blast
  have "fst (State d) = last ((b, s) # us) \<and> snd (State d) = d
      \<and> (\<forall>blk. fst (fst (State d)) = Some blk \<longrightarrow> Height blk \<le> fst (Chain_Height d))"
  proof (intro conjI)
    show "fst (State d) = last ((b, s) # us)" by (rule pair)
    show "snd (State d) = d" by (simp add: State_def)
    show "\<forall>blk. fst (fst (State d)) = Some blk \<longrightarrow> Height blk \<le> fst (Chain_Height d)"
      using below by (simp add: State_def Chain_Height_def)
  qed
  then show ?thesis unfolding d_def .
qed

theorem State_sees_last_update_witness:
  "fst (State (setStates [(Some (block_at 1), Some 8)] (setState (Some (block_at 2)) (Some 9) (chain_at 0 None))))
     = (Some (block_at 1), Some 8)
   \<and> fst (fst (State (setStates [(Some (block_at 1), Some 8)]
         (setState (Some (block_at 2)) (Some 9) (chain_at 0 None))))) = Some (block_at 1)
   \<and> Height (block_at 1) \<le> fst (Chain_Height (setStates [(Some (block_at 1), Some 8)]
         (setState (Some (block_at 2)) (Some 9) (chain_at 0 None))))"
  using State_sees_last_update [of "[(Some (block_at 1), Some 8)]" "Some (block_at 2)" "Some 9" "chain_at 0 None"]
  by simp

section \<open>BlockSoonWaiter\<close>

lemma ctx_error_not_future: "ctx_error e \<noteq> ErrTheDistantFuture"
  by (cases e) simp_all

lemma fast_fail_word_iff:
  "fst (BlockSoonWaiter g r h c) = Some (Some ErrTheDistantFuture) \<longleftrightarrow> height c + 3 < h"
  by (cases r) (simp_all add: BlockSoonWaiter_def Chain_Height_def slop_def ctx_error_not_future)

lemma unat_plus_slop: "unat ((x :: uint64) + 3) = (unat x + 3) mod 2 ^ 64"
  by (simp add: unat_word_ariths)

text \<open>
  Where the height plus 3 stays below \<open>2 ^ 64\<close> the test of \<open>BlockSoonWaiter\<close> is the
  comparison of the numbers, and no \<open>BlockWaiter\<close> is started exactly when it fails
  fast. At height 10 a wait for 14 fails fast and a wait for 13 does not.
\<close>

lemma fast_fail_without_wrap:
  fixes c :: "('h, 's) Chain"
  assumes "unat (height c) + 3 < 2 ^ 64"
  shows "fst (BlockSoonWaiter g r h c) = Some (Some ErrTheDistantFuture)
           \<longleftrightarrow> unat (height c) + 3 < unat h"
  using assms by (simp only: fast_fail_word_iff word_less_nat_alt unat_plus_slop) simp

lemma fast_fail_starts_no_wait:
  "snd (BlockSoonWaiter g r h c) = None
     \<longleftrightarrow> fst (BlockSoonWaiter g r h c) = Some (Some ErrTheDistantFuture)"
  by (cases r) (simp_all add: BlockSoonWaiter_def ctx_error_not_future)

lemma fast_fail_at_height_10:
  "height c = 10 \<Longrightarrow>
     BlockSoonWaiter g r 14 c = (Some (Some ErrTheDistantFuture), None)
     \<and> fst (BlockSoonWaiter g r 13 c) \<noteq> Some (Some ErrTheDistantFuture)"
  by (simp add: fast_fail_word_iff) (simp add: BlockSoonWaiter_def Chain_Height_def slop_def)

text \<open>
  Claim C4. \<open>BlockSoonWaiter\<close> is to fail fast exactly when \<open>h\<close> is above the current
  height plus 3. The code adds \<open>slop\<close> in \<^verbatim>\<open>uint64\<close> without a guard, so at the
  largest height the sum wraps to 2: a wait for height 5, a height the chain has long
  reached, is answered with \<open>ErrTheDistantFuture\<close> and no \<open>BlockWaiter\<close> is started,
  although 5 is not above the height plus 3. The comment on \<^verbatim>\<open>ErrTheDistantFuture\<close>
  keeps that error for heights too far in excess of the tip.
\<close>

theorem BlockSoonWaiter_wraps_at_max_height:
  "BlockSoonWaiter 0 StillWaiting 5 (chain_at 18446744073709551615 None)
     = (Some (Some ErrTheDistantFuture), None)
   \<and> (5 :: uint64) \<le> fst (Chain_Height (chain_at 18446744073709551615 None))
   \<and> fst (Chain_Height (chain_at 18446744073709551615 None)) + slop = 2
   \<and> \<not> unat (height (chain_at 18446744073709551615 None)) + 3 < unat (5 :: uint64)"
  by (simp add: BlockSoonWaiter_def Chain_Height_def slop_def chain_at_def)

section \<open>BlockWaiter\<close>

lemma cond_setState:
  "cond (setState b s c) =
     (case b of None \<Rightarrow> cond c
      | Some blk \<Rightarrow> if Height blk > height c then {} else cond c)"
  by (simp add: setState_def Broadcast_def Let_def split: option.splits)

lemma waiter_inv_init: "waiter_inv (BlockWaiter g h) c"
  by (simp add: waiter_inv_def BlockWaiter_def)

lemma waiter_inv_setState:
  assumes "waiter_inv w c"
  shows "waiter_inv w (setState b s c)"
proof (cases "wpc w")
  case Entry
  with assms show ?thesis by (simp add: waiter_inv_def)
next
  case InWait
  with assms show ?thesis
    by (cases b) (auto simp add: waiter_inv_def cond_setState height_setState)
next
  case Finished
  with assms have "ch w = 1" and "target w \<le> height c"
    by (simp_all add: waiter_inv_def)
  moreover have "height c \<le> height (setState b s c)" by (rule height_setState_le)
  ultimately show ?thesis using Finished by (simp add: waiter_inv_def)
qed

lemma waiter_inv_loop:
  "ch w = 0 \<Longrightarrow> waiter_inv (fst (waiter_loop w c)) (snd (waiter_loop w c))"
  by (simp add: waiter_loop_def waiter_inv_def not_less)

lemma waiter_inv_run:
  assumes "waiter_inv w c"
  shows "waiter_inv (fst (waiter_run w c)) (snd (waiter_run w c))"
proof (cases "wpc w")
  case Entry
  with assms have "ch w = 0" by (simp add: waiter_inv_def)
  then show ?thesis using Entry by (simp add: waiter_run_def waiter_inv_loop)
next
  case InWait
  with assms have "ch w = 0" by (simp add: waiter_inv_def)
  then show ?thesis using InWait assms by (simp add: waiter_run_def waiter_inv_loop)
next
  case Finished
  then show ?thesis using assms by (simp add: waiter_run_def)
qed

lemma target_waiter_run: "target (fst (waiter_run w c)) = target w"
  by (simp add: waiter_run_def waiter_loop_def split: waiter_pc.splits)

lemma height_waiter_run: "height (snd (waiter_run w c)) = height c"
  by (simp add: waiter_run_def waiter_loop_def split: waiter_pc.splits)

lemma run_sched_inv:
  "waiter_inv w c \<Longrightarrow>
     waiter_inv (fst (run_sched es (w, c))) (snd (run_sched es (w, c)))
     \<and> target (fst (run_sched es (w, c))) = target w
     \<and> height c \<le> height (snd (run_sched es (w, c)))"
proof (induction es arbitrary: w c)
  case Nil
  then show ?case by simp
next
  case (Cons e es)
  show ?case
  proof (cases e)
    case (Publish b s)
    have "waiter_inv w (setState b s c)" using Cons.prems by (rule waiter_inv_setState)
    from Cons.IH [OF this] height_setState_le [of c b s]
    show ?thesis by (auto simp add: Publish intro: order_trans)
  next
    case RunWaiter
    obtain w1 c1 where r: "waiter_run w c = (w1, c1)" by (cases "waiter_run w c")
    have "waiter_inv w1 c1" using waiter_inv_run [OF Cons.prems] by (simp add: r)
    moreover have "target w1 = target w" using target_waiter_run [of w c] by (simp add: r)
    moreover have "height c1 = height c" using height_waiter_run [of w c] by (simp add: r)
    ultimately show ?thesis using Cons.IH [of w1 c1] by (simp add: RunWaiter r)
  qed
qed

lemma waiter_run_resolves:
  assumes "waiter_inv w c" and "target w \<le> height c"
  shows "ch (fst (waiter_run w c)) = 1 \<and> wpc (fst (waiter_run w c)) = Finished"
proof (cases "wpc w")
  case Entry
  with assms show ?thesis
    by (simp add: waiter_run_def waiter_loop_def waiter_inv_def not_less [symmetric])
next
  case InWait
  with assms have "ch w = 0" and "wid w \<notin> cond c"
    by (auto simp add: waiter_inv_def)
  with InWait assms(2) show ?thesis
    by (simp add: waiter_run_def waiter_loop_def not_less [symmetric])
next
  case Finished
  with assms show ?thesis by (simp add: waiter_run_def waiter_inv_def)
qed

lemma run_sched_resolved:
  "waiter_inv w c \<Longrightarrow> target w \<le> height c \<Longrightarrow> RunWaiter \<in> set es \<or> wpc w = Finished \<Longrightarrow>
     ch (fst (run_sched es (w, c))) = 1"
proof (induction es arbitrary: w c)
  case Nil
  then show ?case by (simp add: waiter_inv_def)
next
  case (Cons e es)
  show ?case
  proof (cases e)
    case (Publish b s)
    have i: "waiter_inv w (setState b s c)" using Cons.prems(1) by (rule waiter_inv_setState)
    have h: "target w \<le> height (setState b s c)"
      using Cons.prems(2) height_setState_le [of c b s] by (rule order_trans)
    have "RunWaiter \<in> set es \<or> wpc w = Finished" using Cons.prems(3) by (auto simp add: Publish)
    from Cons.IH [OF i h this] show ?thesis by (simp add: Publish)
  next
    case RunWaiter
    obtain w1 c1 where r: "waiter_run w c = (w1, c1)" by (cases "waiter_run w c")
    have i: "waiter_inv w1 c1" using waiter_inv_run [OF Cons.prems(1)] by (simp add: r)
    have t: "target w1 \<le> height c1"
      using target_waiter_run [of w c] height_waiter_run [of w c] Cons.prems(2) by (simp add: r)
    have "wpc w1 = Finished" using waiter_run_resolves [OF Cons.prems(1,2)] by (simp add: r)
    then have "RunWaiter \<in> set es \<or> wpc w1 = Finished" by simp
    from Cons.IH [OF i t this] show ?thesis by (simp add: RunWaiter r)
  qed
qed

text \<open>
  Claim C6. Take the goroutine of \<open>BlockWaiter g H\<close> through any schedule \<open>es\<close> of state
  updates and of its own schedulings. It has sent at most one value. If it has sent, the
  height has reached \<open>H\<close>; while the height is below \<open>H\<close> it has sent nothing, whatever
  advances below \<open>H\<close> the schedule made. Once the height has reached \<open>H\<close> it is not
  parked: the next time it runs it sends, and so it has sent exactly one value at the
  end of every continuation \<open>es'\<close> that schedules it. The updates of the schedule are
  those of \<open>setState\<close>.
\<close>

theorem BlockWaiter_resolves_at_target:
  fixes c :: "('h, 's) Chain" and es es' :: "'s sched list" and g :: nat and H :: uint64
  defines "w \<equiv> fst (run_sched es (BlockWaiter g H, c))"
    and "c' \<equiv> snd (run_sched es (BlockWaiter g H, c))"
  shows "ch w \<le> 1
       \<and> (ch w = 1 \<longrightarrow> H \<le> height c')
       \<and> (height c' < H \<longrightarrow> ch w = 0)
       \<and> (H \<le> height c' \<longrightarrow> ch (fst (waiter_run w c')) = 1)
       \<and> (H \<le> height c' \<longrightarrow> RunWaiter \<in> set es' \<longrightarrow> ch (fst (run_sched es' (w, c'))) = 1)"
proof -
  have "waiter_inv (BlockWaiter g H) c" by (rule waiter_inv_init)
  from run_sched_inv [OF this, of es]
  have inv: "waiter_inv w c'" and tgt: "target w = H"
    by (simp_all add: w_def c'_def BlockWaiter_def)
  have once: "ch w \<le> 1"
    using inv by (cases "wpc w") (simp_all add: waiter_inv_def)
  have safe: "ch w = 1 \<longrightarrow> H \<le> height c'"
    using inv tgt by (cases "wpc w") (simp_all add: waiter_inv_def)
  have below: "height c' < H \<longrightarrow> ch w = 0"
    using inv tgt by (cases "wpc w") (auto simp add: waiter_inv_def)
  have next_run: "H \<le> height c' \<longrightarrow> ch (fst (waiter_run w c')) = 1"
    using waiter_run_resolves [OF inv] tgt by simp
  have later: "H \<le> height c' \<longrightarrow> RunWaiter \<in> set es' \<longrightarrow> ch (fst (run_sched es' (w, c'))) = 1"
    using run_sched_resolved [OF inv, of es'] tgt by simp
  from once safe below next_run later show ?thesis by blast
qed

theorem BlockWaiter_resolves_at_target_witness:
  "height (snd (run_sched [RunWaiter, Publish (Some (block_at 1)) (Some 1), RunWaiter]
       (BlockWaiter 0 2, chain_at 0 None))) < 2
   \<and> ch (fst (run_sched [RunWaiter, Publish (Some (block_at 1)) (Some 1), RunWaiter]
       (BlockWaiter 0 2, chain_at 0 None))) = 0
   \<and> 2 \<le> height (snd (run_sched
       [RunWaiter, Publish (Some (block_at 1)) (Some 1), RunWaiter,
        Publish (Some (block_at 2)) (Some 2)] (BlockWaiter 0 2, chain_at 0 None)))
   \<and> RunWaiter \<in> set [Publish (Some (block_at 1)) (Some 3), RunWaiter]
   \<and> ch (fst (run_sched [Publish (Some (block_at 1)) (Some 3), RunWaiter]
       (run_sched
         [RunWaiter, Publish (Some (block_at 1)) (Some 1), RunWaiter,
          Publish (Some (block_at 2)) (Some 2)] (BlockWaiter 0 2, chain_at 0 None)))) = 1
   \<and> ch (fst (run_sched
       [RunWaiter, Publish (Some (block_at 1)) (Some 1), RunWaiter,
        Publish (Some (block_at 2)) (Some 2), RunWaiter, RunWaiter]
       (BlockWaiter 0 2, chain_at 0 None))) = 1"
  using BlockWaiter_resolves_at_target
          [where es = "[RunWaiter, Publish (Some (block_at 1)) (Some 1), RunWaiter]"
             and g = 0 and H = 2 and c = "chain_at 0 None" and es' = "[]"]
        BlockWaiter_resolves_at_target
          [where es = "[RunWaiter, Publish (Some (block_at 1)) (Some 1), RunWaiter,
                        Publish (Some (block_at 2)) (Some 2)]"
             and g = 0 and H = 2 and c = "chain_at 0 None"
             and es' = "[Publish (Some (block_at 1)) (Some 3), RunWaiter]"]
        BlockWaiter_resolves_at_target
          [where es = "[RunWaiter, Publish (Some (block_at 1)) (Some 1), RunWaiter,
                        Publish (Some (block_at 2)) (Some 2), RunWaiter, RunWaiter]"
             and g = 0 and H = 2 and c = "chain_at 0 None" and es' = "[]"]
  by (simp add: BlockWaiter_def waiter_run_def waiter_loop_def setState_def Broadcast_def
      Let_def chain_at_def block_at_def)

section \<open>The snapshot goroutine\<close>

lemma worker_step_same:
  fixes x y :: "('h, 's) worker_sys"
  assumes "w_chain x = w_chain y" and "ctx_done x = ctx_done y"
    and "worker_alive x = worker_alive y" and "saves x = saves y"
  shows "w_chain (worker_step st e x) = w_chain (worker_step st' e y)
       \<and> ctx_done (worker_step st e x) = ctx_done (worker_step st' e y)
       \<and> worker_alive (worker_step st e x) = worker_alive (worker_step st' e y)
       \<and> saves (worker_step st e x) = saves (worker_step st' e y)"
  using assms by (cases e) (simp_all add: Let_def split: list.splits)

lemma worker_run_same:
  fixes x y :: "('h, 's) worker_sys"
  shows "w_chain x = w_chain y \<Longrightarrow> ctx_done x = ctx_done y \<Longrightarrow>
     worker_alive x = worker_alive y \<Longrightarrow> saves x = saves y \<Longrightarrow>
     w_chain (worker_run st es x) = w_chain (worker_run st' es y)
     \<and> ctx_done (worker_run st es x) = ctx_done (worker_run st' es y)
     \<and> worker_alive (worker_run st es x) = worker_alive (worker_run st' es y)
     \<and> saves (worker_run st es x) = saves (worker_run st' es y)"
proof (induction es arbitrary: x y)
  case Nil
  then show ?case by simp
next
  case (Cons e es)
  have s: "w_chain (worker_step st e x) = w_chain (worker_step st' e y)
       \<and> ctx_done (worker_step st e x) = ctx_done (worker_step st' e y)
       \<and> worker_alive (worker_step st e x) = worker_alive (worker_step st' e y)
       \<and> saves (worker_step st e x) = saves (worker_step st' e y)"
    using Cons.prems by (rule worker_step_same)
  show ?case
    using Cons.IH [of "worker_step st e x" "worker_step st' e y"] s by simp
qed

text \<open>
  Claim C9. Let the snapshot goroutine take a request \<open>ps\<close> from the channel and let
  \<open>SaveSnapshot\<close> fail on it with \<open>e\<close>. The error is logged, \<open>SaveSnapshot\<close> has been
  called once for \<open>ps\<close>, the request has left the channel, and the goroutine still
  runs: the next request sent on the channel is the next one saved. Of the chain only
  the channel has changed, so \<open>Chain_Height\<close> and \<open>State\<close> read what they read before.
  Continued by any events \<open>es\<close>, the run ends in the same chain, with the same calls
  of \<open>SaveSnapshot\<close>, as the same run against any other store \<open>store'\<close>, one where
  the write succeeds among them.
\<close>

theorem SaveSnapshot_failure_is_logged_only:
  fixes sys :: "('h, 's) worker_sys" and store store' :: "'s Store"
    and es :: "'s wevent list"
  assumes "worker_alive sys"
    and "pendingSnapshots (w_chain sys) = ps # rest"
    and "SaveSnapshot store (ps_height ps) (ps_snapshot ps) = Some e"
  defines "sys' \<equiv> worker_step store SelectPending sys"
  shows "logged sys' = logged sys @ [e]
       \<and> saves sys' = saves sys @ [ps]
       \<and> worker_alive sys'
       \<and> w_chain sys' = (w_chain sys)\<lparr>pendingSnapshots := rest\<rparr>
       \<and> fst (Chain_Height (w_chain sys')) = fst (Chain_Height (w_chain sys))
       \<and> fst (State (w_chain sys')) = fst (State (w_chain sys))
       \<and> (rest = [] \<longrightarrow>
            saves (worker_run store [Enqueue nxt, SelectPending] sys') = saves sys @ [ps, nxt])
       \<and> w_chain (worker_run store (SelectPending # es) sys)
            = w_chain (worker_run store' (SelectPending # es) sys)
       \<and> saves (worker_run store (SelectPending # es) sys)
            = saves (worker_run store' (SelectPending # es) sys)
       \<and> worker_alive (worker_run store (SelectPending # es) sys)
            = worker_alive (worker_run store' (SelectPending # es) sys)"
proof -
  have step: "sys' = sys\<lparr>w_chain := (w_chain sys)\<lparr>pendingSnapshots := rest\<rparr>,
                          saves := saves sys @ [ps], logged := logged sys @ [e]\<rparr>"
    using assms(1-3) by (simp add: sys'_def Let_def)
  have same: "w_chain (worker_run store (SelectPending # es) sys)
                = w_chain (worker_run store' (SelectPending # es) sys)
       \<and> ctx_done (worker_run store (SelectPending # es) sys)
                = ctx_done (worker_run store' (SelectPending # es) sys)
       \<and> worker_alive (worker_run store (SelectPending # es) sys)
                = worker_alive (worker_run store' (SelectPending # es) sys)
       \<and> saves (worker_run store (SelectPending # es) sys)
                = saves (worker_run store' (SelectPending # es) sys)"
    by (rule worker_run_same) simp_all
  show ?thesis
  proof (intro conjI)
    show "logged sys' = logged sys @ [e]" by (simp add: step)
    show "saves sys' = saves sys @ [ps]" by (simp add: step)
    show "worker_alive sys'" using assms(1) by (simp add: step)
    show "w_chain sys' = (w_chain sys)\<lparr>pendingSnapshots := rest\<rparr>" by (simp add: step)
    show "fst (Chain_Height (w_chain sys')) = fst (Chain_Height (w_chain sys))"
      by (simp add: step Chain_Height_def)
    show "fst (State (w_chain sys')) = fst (State (w_chain sys))"
      by (simp add: step State_def)
    show "rest = [] \<longrightarrow>
            saves (worker_run store [Enqueue nxt, SelectPending] sys') = saves sys @ [ps, nxt]"
      using assms(1) by (simp add: step Let_def)
    show "w_chain (worker_run store (SelectPending # es) sys)
            = w_chain (worker_run store' (SelectPending # es) sys)"
      using same by blast
    show "saves (worker_run store (SelectPending # es) sys)
            = saves (worker_run store' (SelectPending # es) sys)"
      using same by blast
    show "worker_alive (worker_run store (SelectPending # es) sys)
            = worker_alive (worker_run store' (SelectPending # es) sys)"
      using same by blast
  qed
qed

theorem SaveSnapshot_failure_is_logged_only_witness:
  "worker_alive worker_sys0
   \<and> pendingSnapshots (w_chain worker_sys0) = [\<lparr>ps_height = 1, ps_snapshot = Some 7\<rparr>]
   \<and> SaveSnapshot lossy_store 1 (Some 7) = Some (ErrStore ''disk full'')
   \<and> logged (worker_step lossy_store SelectPending worker_sys0) = [ErrStore ''disk full'']
   \<and> saves (worker_step lossy_store SelectPending worker_sys0)
        = [\<lparr>ps_height = 1, ps_snapshot = Some 7\<rparr>]
   \<and> saves (worker_run lossy_store [Enqueue \<lparr>ps_height = 2, ps_snapshot = Some 8\<rparr>, SelectPending]
        (worker_step lossy_store SelectPending worker_sys0))
        = [\<lparr>ps_height = 1, ps_snapshot = Some 7\<rparr>, \<lparr>ps_height = 2, ps_snapshot = Some 8\<rparr>]
   \<and> fst (State (w_chain (worker_run lossy_store
        [SelectPending, Update (Some (block_at 2)) (Some 8)] worker_sys0)))
        = (Some (block_at 2), Some 8)
   \<and> w_chain (worker_run lossy_store [SelectPending, Update (Some (block_at 2)) (Some 8)] worker_sys0)
        = w_chain (worker_run good_store [SelectPending, Update (Some (block_at 2)) (Some 8)] worker_sys0)"
proof -
  have a: "worker_alive worker_sys0" by (simp add: worker_sys0_def)
  have p: "pendingSnapshots (w_chain worker_sys0) = \<lparr>ps_height = 1, ps_snapshot = Some 7\<rparr> # []"
    by (simp add: worker_sys0_def)
  have f: "SaveSnapshot lossy_store (ps_height \<lparr>ps_height = 1, ps_snapshot = Some 7\<rparr>)
             (ps_snapshot \<lparr>ps_height = 1, ps_snapshot = Some 7\<rparr>) = Some (ErrStore ''disk full'')"
    by (simp add: lossy_store_def)
  show ?thesis
    using a p f
      SaveSnapshot_failure_is_logged_only
        [where nxt = "\<lparr>ps_height = 2, ps_snapshot = Some 8\<rparr>"
           and es = "[Update (Some (block_at 2)) (Some 8)]" and store' = good_store,
         OF a p f]
    by (simp add: worker_sys0_def lossy_store_def chain_at_def block_at_def State_def
        setState_def Broadcast_def Let_def)
qed

end
